theory Spec2Isabelle
  imports Main "HOL-Library.Char_ord" "HOL-Library.List_Lexorder"
    "HOL-Library.Product_Lexorder" "HOL-Library.Multiset"
begin

section \<open>The cereal pipeline: data model\<close>

text \<open>
  The pipeline works on a pandas \<open>DataFrame\<close>. A frame is modelled column by column, as
  pandas stores it and as the test fixture builds it: an ordered list of labelled columns,
  where a column is either an integer column or a column of strings. Labels may repeat
  (pandas allows it), so the frame is an association list and not a map.

  A column label is a Python string, modelled by its UTF-8 bytes as an Isabelle \<open>string\<close>:
  an ASCII character is one \<open>char\<close>, any other character is a sequence of two to four
  \<open>char\<close>s from \<open>0x80\<close> on. Python's case mappings are modelled as follows.
  \<^item> \<open>str.lower\<close> maps the ASCII letters \<open>A\<close> to \<open>Z\<close>.
  \<^item> \<open>str.upper\<close> maps the ASCII letters \<open>a\<close> to \<open>z\<close>, and the ten other characters
    whose upper-case form is made of ASCII letters: dotless i (U+0131) gives \<open>I\<close>, long s
    (U+017F) gives \<open>S\<close>, sharp s (U+00DF) gives \<open>SS\<close>, and the ligatures U+FB00 to
    U+FB06 give \<open>FF\<close>, \<open>FI\<close>, \<open>FL\<close>, \<open>FFI\<close>, \<open>FFL\<close>, \<open>ST\<close>, \<open>ST\<close>.
  \<^item> Every other character is left as it is by both. Python maps the other cased letters
    too: to strings with a non-ASCII character in them, except that the Kelvin sign
    (U+212A) lowercases to \<open>k\<close>. No theorem below depends on what the mappings do
    there, beyond the idempotence of \<open>lower\<close> and the hypotheses that are stated.

  Floating point values and missing values (NaN) are not part of the model.

  The definitions follow the bodies of the Python functions. The \<open>@op\<close> and \<open>@job\<close>
  wrappers of dagster, the download and the logging are not modelled.
\<close>

datatype column = IntCol "int list" | StrCol "string list"

datatype cell = IntVal int | StrVal string

type_synonym dataframe = "(string \<times> column) list"

datatype error = ValueError | KeyError | IndexError

text \<open>What \<open>row["name"]\<close> gives: one value, or a Series when the label repeats.\<close>

datatype selected = Scalar cell | SeriesOf "cell list"

definition columns :: "dataframe \<Rightarrow> string list" where
  "columns df = map fst df"

fun collen :: "column \<Rightarrow> nat" where
  "collen (IntCol xs) = length xs"
| "collen (StrCol xs) = length xs"

text \<open>In a frame every column has the same number of rows.\<close>

definition nrows :: "dataframe \<Rightarrow> nat" where
  "nrows df = (case df of [] \<Rightarrow> 0 | (h, c) # _ \<Rightarrow> collen c)"

definition wf_df :: "dataframe \<Rightarrow> bool" where
  "wf_df df = list_all (\<lambda>(h, c). collen c = nrows df) df"

subsection \<open>Case mapping of labels\<close>

definition lower_char :: "char \<Rightarrow> char" where
  "lower_char c =
     (if CHR ''A'' \<le> c \<and> c \<le> CHR ''Z'' then char_of (of_char c + (32::nat)) else c)"

definition upper_char :: "char \<Rightarrow> char" where
  "upper_char c =
     (if CHR ''a'' \<le> c \<and> c \<le> CHR ''z'' then char_of (of_char c - (32::nat)) else c)"

definition lower :: "string \<Rightarrow> string" where
  "lower s = map lower_char s"

text \<open>The third byte of a ligature U+FB00 to U+FB06 (\<open>0xEF 0xAC 0x80\<close> and the next six)
  and its upper-case form.\<close>

definition ligature_upper :: "char \<Rightarrow> string option" where
  "ligature_upper c =
     (if c = CHR 0x80 then Some ''FF''
      else if c = CHR 0x81 then Some ''FI''
      else if c = CHR 0x82 then Some ''FL''
      else if c = CHR 0x83 then Some ''FFI''
      else if c = CHR 0x84 then Some ''FFL''
      else if c = CHR 0x85 then Some ''ST''
      else if c = CHR 0x86 then Some ''ST''
      else None)"

text \<open>The two-byte characters with an ASCII upper-case form: dotless i (\<open>0xC4 0xB1\<close>),
  long s (\<open>0xC5 0xBF\<close>) and sharp s (\<open>0xC3 0x9F\<close>).\<close>

definition two_byte_upper :: "char \<Rightarrow> char \<Rightarrow> string option" where
  "two_byte_upper c d =
     (if c = CHR 0xC4 \<and> d = CHR 0xB1 then Some ''I''
      else if c = CHR 0xC5 \<and> d = CHR 0xBF then Some ''S''
      else if c = CHR 0xC3 \<and> d = CHR 0x9F then Some ''SS''
      else None)"

fun upper :: "string \<Rightarrow> string" where
  "upper [] = []"
| "upper [c] = [upper_char c]"
| "upper [c, d] =
     (case two_byte_upper c d of
        Some u \<Rightarrow> u
      | None \<Rightarrow> [upper_char c, upper_char d])"
| "upper (c # d # e # s) =
     (case two_byte_upper c d of
        Some u \<Rightarrow> u @ upper (e # s)
      | None \<Rightarrow>
          (case (if c = CHR 0xEF \<and> d = CHR 0xAC then ligature_upper e else None) of
             Some u \<Rightarrow> u @ upper s
           | None \<Rightarrow> upper_char c # upper (d # e # s)))"

text \<open>\<open>df.columns = df.columns.str.lower()\<close> and its upper-case sibling of the tests.\<close>

definition str_lower_columns :: "dataframe \<Rightarrow> dataframe" where
  "str_lower_columns df = map (\<lambda>(h, c). (lower h, c)) df"

definition str_upper_columns :: "dataframe \<Rightarrow> dataframe" where
  "str_upper_columns df = map (\<lambda>(h, c). (upper h, c)) df"

text \<open>\<open>df.rename({old: new}, axis=1)\<close>: every column labelled \<open>old\<close> is relabelled, the
  order and the contents of the columns stay.\<close>

definition rename :: "string \<Rightarrow> string \<Rightarrow> dataframe \<Rightarrow> dataframe" where
  "rename old new df = map (\<lambda>(h, c). (if h = old then new else h, c)) df"

section \<open>The normalizer\<close>

text \<open>
  \<open>preprocess_cereals\<close> of \<open>v3_pipeline.py\<close>. The assignment to \<open>df.columns\<close> changes
  the caller's frame in place, so the model returns a pair: the caller's frame as the call
  leaves it, and the outcome (the raised error or the returned frame).
\<close>

definition preprocess_cereals :: "dataframe \<Rightarrow> dataframe \<times> (error + dataframe)" where
  "preprocess_cereals df =
     (let df1 = str_lower_columns df in
      if ''name'' \<notin> set (columns df1) then
        if ''brand'' \<in> set (columns df1) then (df1, Inr (rename ''brand'' ''name'' df1))
        else (df1, Inl ValueError)
      else (df1, Inr df1))"

section \<open>The selector\<close>

text \<open>
  \<open>df.sort_values(by, ascending=False)\<close> first fetches the key columns. A label that no
  column carries is a \<open>KeyError\<close>, a label that several columns carry is a \<open>ValueError\<close>
  ("The column label ... is not unique").
\<close>

definition get_label_values :: "string \<Rightarrow> dataframe \<Rightarrow> error + column" where
  "get_label_values key df =
     (case filter (\<lambda>(h, c). h = key) df of
        [] \<Rightarrow> Inl KeyError
      | [(h, c)] \<Rightarrow> Inr c
      | _ \<Rightarrow> Inl ValueError)"

text \<open>
  With several keys pandas sorts by \<open>lexsort_indexer\<close>: each key column is turned into the
  codes of an ordered categorical (the rank of the value among the distinct values of the
  column), a descending key reverses its codes (\<open>n - code - 1\<close>), and \<open>numpy.lexsort\<close>, a
  stable sort, orders the row numbers by the codes, first key first.
\<close>

definition category_code :: "'a::linorder list \<Rightarrow> 'a \<Rightarrow> nat" where
  "category_code ks k = length (filter (\<lambda>c. c < k) (remdups ks))"

definition codes :: "'a::linorder list \<Rightarrow> nat list" where
  "codes ks = map (category_code ks) ks"

definition reversed_codes :: "'a::linorder list \<Rightarrow> nat list" where
  "reversed_codes ks = map (\<lambda>c. length (remdups ks) - c - 1) (codes ks)"

fun desc_codes :: "column \<Rightarrow> nat list" where
  "desc_codes (IntCol ks) = reversed_codes ks"
| "desc_codes (StrCol ks) = reversed_codes ks"

definition lexsort_indexer :: "column \<Rightarrow> column \<Rightarrow> nat list" where
  "lexsort_indexer k1 k2 =
     sort_key (\<lambda>i. (desc_codes k1 ! i, desc_codes k2 ! i)) [0..<collen k1]"

text \<open>\<open>df.take(indexer)\<close>: the rows in the order of the indexer.\<close>

fun take_col :: "nat list \<Rightarrow> column \<Rightarrow> column" where
  "take_col ix (IntCol xs) = IntCol (map (\<lambda>i. xs ! i) ix)"
| "take_col ix (StrCol xs) = StrCol (map (\<lambda>i. xs ! i) ix)"

definition take_rows :: "nat list \<Rightarrow> dataframe \<Rightarrow> dataframe" where
  "take_rows ix df = map (\<lambda>(h, c). (h, take_col ix c)) df"

fun cell_at :: "column \<Rightarrow> nat \<Rightarrow> cell" where
  "cell_at (IntCol xs) i = IntVal (xs ! i)"
| "cell_at (StrCol xs) i = StrVal (xs ! i)"

text \<open>\<open>df.iloc[0]\<close>: the first row as a labelled list of cells, \<open>IndexError\<close> when the
  frame has no row.\<close>

definition iloc0 :: "dataframe \<Rightarrow> error + (string \<times> cell) list" where
  "iloc0 df =
     (if nrows df = 0 then Inl IndexError
      else Inr (map (\<lambda>(h, c). (h, cell_at c 0)) df))"

text \<open>\<open>row[key]\<close> on the row: \<open>KeyError\<close> when no entry has the label, the value when one
  has it, the Series of the values when several have it.\<close>

definition getitem :: "(string \<times> cell) list \<Rightarrow> string \<Rightarrow> error + selected" where
  "getitem row key =
     (case filter (\<lambda>(h, v). h = key) row of
        [] \<Rightarrow> Inl KeyError
      | [(h, v)] \<Rightarrow> Inr (Scalar v)
      | vs \<Rightarrow> Inr (SeriesOf (map snd vs)))"

text \<open>\<open>df.sort_values(["protein", "calories"], ascending=False)\<close>.\<close>

definition sort_values_protein_calories :: "dataframe \<Rightarrow> error + dataframe" where
  "sort_values_protein_calories df =
     (case get_label_values ''protein'' df of
        Inl e \<Rightarrow> Inl e
      | Inr kp \<Rightarrow>
          (case get_label_values ''calories'' df of
             Inl e \<Rightarrow> Inl e
           | Inr kc \<Rightarrow> Inr (take_rows (lexsort_indexer kp kc) df)))"

text \<open>\<open>find_highest_protein_cereal\<close> of \<open>v3_pipeline.py\<close>.\<close>

definition find_highest_protein_cereal :: "dataframe \<Rightarrow> error + selected" where
  "find_highest_protein_cereal df =
     (case sort_values_protein_calories df of
        Inl e \<Rightarrow> Inl e
      | Inr sorted_df \<Rightarrow>
          (case iloc0 sorted_df of
             Inl e \<Rightarrow> Inl e
           | Inr row \<Rightarrow> getitem row ''name''))"

text \<open>
  \<open>find_highest_protein_cereal\<close> of \<open>v0_pipeline.py\<close> sorts by one key,
  \<open>df.sort_values("protein", ascending=False)\<close>, with numpy's default quicksort, which is
  not stable: the order of rows with equal keys is not determined by the source. The sort
  is therefore a parameter, the function from the key column to the indexer, and
  \<open>desc_indexer\<close> is what pandas promises of it: a permutation of the row numbers along
  which the key does not increase.
\<close>

fun col_ge :: "column \<Rightarrow> nat \<Rightarrow> nat \<Rightarrow> bool" where
  "col_ge (IntCol ks) i j = (ks ! j \<le> ks ! i)"
| "col_ge (StrCol ks) i j = (ks ! j \<le> ks ! i)"

definition desc_indexer :: "(column \<Rightarrow> nat list) \<Rightarrow> bool" where
  "desc_indexer nargsort =
     (\<forall>k. mset (nargsort k) = mset [0..<collen k] \<and> sorted_wrt (col_ge k) (nargsort k))"

text \<open>One sort that keeps the promise: the stable sort on the reversed codes of the key.\<close>

definition stable_nargsort :: "column \<Rightarrow> nat list" where
  "stable_nargsort k = sort_key (\<lambda>i. desc_codes k ! i) [0..<collen k]"

definition find_highest_protein_cereal_v0 ::
    "(column \<Rightarrow> nat list) \<Rightarrow> dataframe \<Rightarrow> error + selected" where
  "find_highest_protein_cereal_v0 nargsort df =
     (case get_label_values ''protein'' df of
        Inl e \<Rightarrow> Inl e
      | Inr k \<Rightarrow>
          (case iloc0 (take_rows (nargsort k) df) of
             Inl e \<Rightarrow> Inl e
           | Inr row \<Rightarrow> getitem row ''name''))"

text \<open>The job of \<open>v3_pipeline.py\<close> between the download and the logging.\<close>

definition best_preworkout_cereal_pipeline :: "dataframe \<Rightarrow> error + selected" where
  "best_preworkout_cereal_pipeline df =
     (case snd (preprocess_cereals df) of
        Inl e \<Rightarrow> Inl e
      | Inr df' \<Rightarrow> find_highest_protein_cereal df')"

section \<open>Frames of the tests\<close>

text \<open>The frame of \<open>test_find_highest_protein_cereal\<close>.\<close>

definition test_df :: dataframe where
  "test_df = [(''name'', StrCol [''Bran'', ''Bran - no added sugars'', ''Honey-comb'']),
              (''protein'', IntCol [4, 4, 1]),
              (''calories'', IntCol [70, 50, 110])]"

text \<open>Frames with other spellings of the labels, as the smoke tests build them.\<close>

definition ex_both :: dataframe where
  "ex_both = [(''Name'', StrCol [''Bran'']), (''BRAND'', StrCol [''Acme'']),
              (''protein'', IntCol [4]), (''calories'', IntCol [70])]"

definition ex_brand :: dataframe where
  "ex_brand = [(''Brand'', StrCol [''Bran'', ''Honey-comb'']),
               (''PROTEIN'', IntCol [4, 1]), (''Calories'', IntCol [70, 110])]"

definition ex_no_id :: dataframe where
  "ex_no_id = [(''Cereal'', StrCol [''Bran'', ''Honey-comb'']),
               (''PROTEIN'', IntCol [4, 1]), (''Calories'', IntCol [70, 110])]"

definition ex_normalized :: dataframe where
  "ex_normalized = [(''name'', StrCol [''Bran'', ''Honey-comb'']),
                    (''protein'', IntCol [4, 1]), (''calories'', IntCol [70, 110])]"

text \<open>The frame of the test with the \<open>i\<close> of \<open>protein\<close> replaced by a dotless i (U+0131,
  the bytes \<open>0xC4 0xB1\<close>).\<close>

definition ex_dotless :: dataframe where
  "ex_dotless =
     [(''name'', StrCol [''Bran'', ''Bran - no added sugars'', ''Honey-comb'']),
      (''prote'' @ [CHR 0xC4, CHR 0xB1] @ ''n'', IntCol [4, 4, 1]),
      (''calories'', IntCol [70, 50, 110])]"

definition ex_empty :: dataframe where
  "ex_empty = [(''name'', StrCol []), (''protein'', IntCol []), (''calories'', IntCol [])]"

section \<open>Properties of the normalizer\<close>

lemma columns_str_lower: "columns (str_lower_columns df) = map lower (columns df)"
  by (simp add: columns_def str_lower_columns_def case_prod_unfold)

lemma lower_char_idem: "lower_char (lower_char c) = lower_char c"
  by (simp add: lower_char_def less_eq_char_def)

lemma lower_upper_char: "lower_char (upper_char c) = lower_char c"
  by (auto simp: lower_char_def upper_char_def less_eq_char_def)

lemma lower_idem: "lower (lower s) = lower s"
  by (simp add: lower_def lower_char_idem)

lemma ascii_not_special:
  assumes "c < CHR 0x80"
  shows "two_byte_upper c d = None" and "c \<noteq> CHR 0xEF"
  using assms by (auto simp: two_byte_upper_def less_char_def)

lemma upper_ascii: "\<forall>c \<in> set s. c < CHR 0x80 \<Longrightarrow> upper s = map upper_char s"
  by (induction s rule: upper.induct) (simp_all add: ascii_not_special)

lemma lower_upper_ascii: "\<forall>c \<in> set s. c < CHR 0x80 \<Longrightarrow> lower (upper s) = lower s"
  by (simp add: upper_ascii lower_def lower_upper_char)

lemma str_lower_columns_idem: "str_lower_columns (str_lower_columns df) = str_lower_columns df"
  by (simp add: str_lower_columns_def case_prod_unfold lower_idem)

lemma columns_rename:
  "columns (rename old new df) = map (\<lambda>h. if h = old then new else h) (columns df)"
  by (simp add: columns_def rename_def case_prod_unfold)

lemma data_rename: "map snd (rename old new df) = map snd df"
  by (simp add: rename_def case_prod_unfold)

lemma data_str_lower: "map snd (str_lower_columns df) = map snd df"
  by (simp add: str_lower_columns_def case_prod_unfold)

lemma lower_name: "lower ''name'' = ''name''"
  by code_simp

lemma lower_brand: "lower ''brand'' = ''brand''"
  by code_simp

lemma preprocess_with_name:
  "''name'' \<in> set (map lower (columns df)) \<Longrightarrow>
   preprocess_cereals df = (str_lower_columns df, Inr (str_lower_columns df))"
  by (simp add: preprocess_cereals_def Let_def columns_str_lower)

lemma preprocess_with_brand:
  "''name'' \<notin> set (map lower (columns df)) \<Longrightarrow> ''brand'' \<in> set (map lower (columns df)) \<Longrightarrow>
   preprocess_cereals df
     = (str_lower_columns df, Inr (rename ''brand'' ''name'' (str_lower_columns df)))"
  by (simp add: preprocess_cereals_def Let_def columns_str_lower)

lemma preprocess_without_id:
  "''name'' \<notin> set (map lower (columns df)) \<Longrightarrow> ''brand'' \<notin> set (map lower (columns df)) \<Longrightarrow>
   preprocess_cereals df = (str_lower_columns df, Inl ValueError)"
  by (simp add: preprocess_cereals_def Let_def columns_str_lower)

lemma lowered_labels: "h \<in> set (columns (str_lower_columns df)) \<Longrightarrow> lower h = h"
  by (auto simp: columns_str_lower lower_idem)

lemma renamed_labels:
  "h \<in> set (columns (rename ''brand'' ''name'' (str_lower_columns df))) \<Longrightarrow> lower h = h"
  unfolding columns_rename columns_str_lower
  using lower_name lower_idem by (auto split: if_splits)

lemma name_after_rename:
  "old \<in> set (columns d) \<Longrightarrow> new \<in> set (columns (rename old new d))"
  by (force simp: columns_rename)

lemma rename_absent: "old \<notin> set (columns d) \<Longrightarrow> rename old new d = d"
  by (induction d) (auto simp: rename_def columns_def)

lemma preprocess_cereals_raises_or_returns:
  "''name'' \<in> set (map lower (columns df)) \<or> ''brand'' \<in> set (map lower (columns df))
   \<Longrightarrow> \<exists>df'. snd (preprocess_cereals df) = Inr df'"
  using preprocess_with_name [of df] preprocess_with_brand [of df] by (cases "''name'' \<in> set (map lower (columns df))") auto

text \<open>
  Claim C8. When the lowercased labels contain both \<open>name\<close> and \<open>brand\<close>, the
  normalizer renames nothing: it returns the frame with lowercased labels, so a \<open>brand\<close>
  label is among the labels of the result, and the columns keep their order and their
  contents.
\<close>

theorem both_name_and_brand_no_rename:
  assumes "''name'' \<in> set (map lower (columns df))"
    and "''brand'' \<in> set (map lower (columns df))"
  shows "snd (preprocess_cereals df) = Inr (str_lower_columns df)
    \<and> columns (str_lower_columns df) = map lower (columns df)
    \<and> map snd (str_lower_columns df) = map snd df
    \<and> ''brand'' \<in> set (columns (str_lower_columns df))"
  using assms
  by (simp add: preprocess_with_name columns_str_lower data_str_lower)

theorem both_name_and_brand_no_rename_witness:
  "''name'' \<in> set (map lower (columns ex_both))
   \<and> ''brand'' \<in> set (map lower (columns ex_both))
   \<and> snd (preprocess_cereals ex_both) = Inr (str_lower_columns ex_both)
   \<and> ''brand'' \<in> set (columns (str_lower_columns ex_both))"
proof -
  have h1: "''name'' \<in> set (map lower (columns ex_both))" by code_simp
  have h2: "''brand'' \<in> set (map lower (columns ex_both))" by code_simp
  from both_name_and_brand_no_rename [OF h1 h2] h1 h2 show ?thesis by blast
qed

text \<open>
  Claim C3. The normalizer raises its error (Python's \<open>ValueError\<close>, the spec's schema
  error) exactly when the lowercased labels contain neither \<open>name\<close> nor \<open>brand\<close>.
  Otherwise it returns a frame whose labels are all lowercase and contain \<open>name\<close>, with the
  column contents unchanged: the lowercased frame when \<open>name\<close> is there, and the lowercased
  frame with \<open>brand\<close> relabelled \<open>name\<close> when it is not.
\<close>

theorem preprocess_cereals_raises_iff:
  "(snd (preprocess_cereals df) = Inl ValueError
      \<longleftrightarrow> ''name'' \<notin> set (map lower (columns df)) \<and> ''brand'' \<notin> set (map lower (columns df)))
   \<and> ((\<exists>e. snd (preprocess_cereals df) = Inl e)
      \<longleftrightarrow> ''name'' \<notin> set (map lower (columns df)) \<and> ''brand'' \<notin> set (map lower (columns df)))
   \<and> (''name'' \<in> set (map lower (columns df)) \<or> ''brand'' \<in> set (map lower (columns df))
      \<longrightarrow> (\<exists>df'. snd (preprocess_cereals df) = Inr df'
            \<and> (\<forall>h \<in> set (columns df'). lower h = h)
            \<and> ''name'' \<in> set (columns df')
            \<and> map snd df' = map snd df
            \<and> df' = (if ''name'' \<in> set (map lower (columns df)) then str_lower_columns df
                     else rename ''brand'' ''name'' (str_lower_columns df))))"
proof -
  define N where "N \<longleftrightarrow> ''name'' \<in> set (map lower (columns df))"
  define B where "B \<longleftrightarrow> ''brand'' \<in> set (map lower (columns df))"
  consider (name) N | (brand) "\<not> N" B | (none) "\<not> N" "\<not> B" by blast
  then show ?thesis
  proof cases
    case name
    then have n: "''name'' \<in> set (map lower (columns df))" by (simp add: N_def)
    have n': "''name'' \<in> set (columns (str_lower_columns df))"
      using n by (simp only: columns_str_lower)
    show ?thesis
      unfolding preprocess_with_name [OF n] snd_conv if_P [OF n]
      using n n' lowered_labels data_str_lower by blast
  next
    case brand
    then have n: "''name'' \<notin> set (map lower (columns df))"
      and b: "''brand'' \<in> set (map lower (columns df))" by (simp_all add: N_def B_def)
    have b': "''brand'' \<in> set (columns (str_lower_columns df))"
      using b by (simp only: columns_str_lower)
    have d: "map snd (rename ''brand'' ''name'' (str_lower_columns df)) = map snd df"
      by (simp only: data_rename data_str_lower)
    show ?thesis
      unfolding preprocess_with_brand [OF n b] snd_conv if_not_P [OF n]
      using n b name_after_rename [OF b'] renamed_labels d by blast
  next
    case none
    then have n: "''name'' \<notin> set (map lower (columns df))"
      and b: "''brand'' \<notin> set (map lower (columns df))" by (simp_all add: N_def B_def)
    show ?thesis
      unfolding preprocess_without_id [OF n b] snd_conv
      using n b by blast
  qed
qed

theorem preprocess_cereals_raises_iff_witness:
  "snd (preprocess_cereals ex_no_id) = Inl ValueError
   \<and> snd (preprocess_cereals ex_brand) = Inr ex_normalized"
proof -
  have n1: "''name'' \<notin> set (map lower (columns ex_no_id))" by code_simp
  have n2: "''brand'' \<notin> set (map lower (columns ex_no_id))" by code_simp
  have b1: "''name'' \<notin> set (map lower (columns ex_brand))" by code_simp
  have b2: "''brand'' \<in> set (map lower (columns ex_brand))" by code_simp
  have r: "rename ''brand'' ''name'' (str_lower_columns ex_brand) = ex_normalized"
    by code_simp
  from preprocess_cereals_raises_iff [of ex_no_id] n1 n2
  have e: "snd (preprocess_cereals ex_no_id) = Inl ValueError" by blast
  from preprocess_cereals_raises_iff [of ex_brand] b2
  have "\<exists>df'. snd (preprocess_cereals ex_brand) = Inr df'
      \<and> df' = (if ''name'' \<in> set (map lower (columns ex_brand)) then str_lower_columns ex_brand
                else rename ''brand'' ''name'' (str_lower_columns ex_brand))"
    by blast
  then have "snd (preprocess_cereals ex_brand) = Inr ex_normalized"
    unfolding if_not_P [OF b1] r by blast
  with e show ?thesis by blast
qed

text \<open>
  Claim C5. The normalizer is idempotent: run on a frame it has returned, it returns that
  frame again and leaves it as it is.
\<close>

theorem preprocess_cereals_idempotent:
  assumes "snd (preprocess_cereals df) = Inr df'"
  shows "preprocess_cereals df' = (df', Inr df')"
proof (cases "''name'' \<in> set (map lower (columns df))")
  case True
  with assms have d: "df' = str_lower_columns df"
    by (simp add: preprocess_with_name)
  have "''name'' \<in> set (map lower (columns df'))"
    using True by (simp add: d columns_str_lower lower_idem)
  from preprocess_with_name [OF this] show ?thesis
    by (simp add: d str_lower_columns_idem)
next
  case False
  show ?thesis
  proof (cases "''brand'' \<in> set (map lower (columns df))")
    case True
    with assms False have d: "df' = rename ''brand'' ''name'' (str_lower_columns df)"
      by (simp add: preprocess_with_brand)
    have low: "str_lower_columns df' = df'"
      unfolding d
      by (simp add: str_lower_columns_def rename_def case_prod_unfold lower_idem lower_name)
    have "''brand'' \<in> set (columns (str_lower_columns df))"
      using True by (simp only: columns_str_lower)
    then have "''name'' \<in> set (columns df')"
      unfolding d by (rule name_after_rename)
    then have "''name'' \<in> set (map lower (columns df'))"
      by (simp only: columns_str_lower [symmetric] low)
    from preprocess_with_name [OF this] show ?thesis
      by (simp only: low)
  next
    case nb: False
    from preprocess_without_id [OF False nb] assms show ?thesis by simp
  qed
qed

theorem preprocess_cereals_idempotent_witness:
  "snd (preprocess_cereals ex_brand) = Inr ex_normalized
   \<and> preprocess_cereals ex_normalized = (ex_normalized, Inr ex_normalized)"
proof -
  have h: "snd (preprocess_cereals ex_brand) = Inr ex_normalized"
    by code_simp
  from preprocess_cereals_idempotent [OF h] h show ?thesis by blast
qed

text \<open>
  Claim C9. The failure of the normalizer is not atomic: when the lowercased labels
  contain neither \<open>name\<close> nor \<open>brand\<close>, the call raises and leaves the caller's frame
  with every label lowercased.
\<close>

theorem preprocess_cereals_failure_mutates:
  assumes "''name'' \<notin> set (map lower (columns df))"
    and "''brand'' \<notin> set (map lower (columns df))"
  shows "preprocess_cereals df = (str_lower_columns df, Inl ValueError)
    \<and> columns (fst (preprocess_cereals df)) = map lower (columns df)"
  using assms by (simp add: preprocess_without_id columns_str_lower)

theorem preprocess_cereals_failure_mutates_witness:
  "''name'' \<notin> set (map lower (columns ex_no_id))
   \<and> ''brand'' \<notin> set (map lower (columns ex_no_id))
   \<and> preprocess_cereals ex_no_id
       = ([(''cereal'', StrCol [''Bran'', ''Honey-comb'']),
           (''protein'', IntCol [4, 1]), (''calories'', IntCol [70, 110])], Inl ValueError)"
proof -
  have n1: "''name'' \<notin> set (map lower (columns ex_no_id))" by code_simp
  have n2: "''brand'' \<notin> set (map lower (columns ex_no_id))" by code_simp
  have l: "str_lower_columns ex_no_id
      = [(''cereal'', StrCol [''Bran'', ''Honey-comb'']),
         (''protein'', IntCol [4, 1]), (''calories'', IntCol [70, 110])]"
    by code_simp
  from preprocess_cereals_failure_mutates [OF n1 n2] n1 n2 show ?thesis
    unfolding l by blast
qed

section \<open>Properties of the selector\<close>

lemma filter_label_absent:
  "k \<notin> set (map fst df) \<Longrightarrow> filter (\<lambda>p. fst p = k) df = []"
  by (induction df) auto

lemma filter_label_unique:
  "distinct (map fst df) \<Longrightarrow> (k, c) \<in> set df \<Longrightarrow> filter (\<lambda>p. fst p = k) df = [(k, c)]"
proof (induction df)
  case Nil
  then show ?case by simp
next
  case (Cons p df)
  from Cons.prems(1) have nin: "fst p \<notin> set (map fst df)" and d: "distinct (map fst df)"
    by simp_all
  show ?case
  proof (cases "p = (k, c)")
    case True
    with nin have "k \<notin> set (map fst df)" by simp
    from filter_label_absent [OF this] True show ?thesis by simp
  next
    case False
    with Cons.prems(2) have m: "(k, c) \<in> set df" by simp
    then have "k \<in> set (map fst df)" by (simp add: image_iff) (rule bexI [of _ "(k, c)"], simp_all)
    with nin have "fst p \<noteq> k" by blast
    with Cons.IH [OF d m] show ?thesis by simp
  qed
qed

lemma get_label_values_unique:
  assumes "distinct (columns df)" and "map_of df k = Some c"
  shows "get_label_values k df = Inr c"
proof -
  from assms(2) have "(k, c) \<in> set df" by (rule map_of_SomeD)
  with assms(1) have "filter (\<lambda>p. fst p = k) df = [(k, c)]"
    unfolding columns_def by (rule filter_label_unique)
  then show ?thesis
    by (simp add: get_label_values_def case_prod_unfold)
qed

lemma hd_insort_key:
  "hd (insort_key f x ys) = (if ys = [] \<or> f x \<le> f (hd ys) then x else hd ys)"
  by (cases ys) auto

lemma hd_sort_key_first_min:
  "xs \<noteq> [] \<Longrightarrow>
   \<exists>i<length xs. hd (sort_key f xs) = xs ! i
      \<and> (\<forall>j<length xs. f (xs ! i) \<le> f (xs ! j))
      \<and> (\<forall>j<i. f (xs ! i) < f (xs ! j))"
proof (induction xs)
  case Nil
  then show ?case by simp
next
  case (Cons x xs)
  show ?case
  proof (cases "xs = []")
    case True
    then show ?thesis by simp
  next
    case False
    from Cons.IH [OF False] obtain i where i: "i < length xs"
      and h: "hd (sort_key f xs) = xs ! i"
      and mn: "\<forall>j<length xs. f (xs ! i) \<le> f (xs ! j)"
      and fst: "\<forall>j<i. f (xs ! i) < f (xs ! j)" by blast
    have ne: "sort_key f xs \<noteq> []" using False by (metis length_sort length_0_conv)
    show ?thesis
    proof (cases "f x \<le> f (xs ! i)")
      case True
      have "hd (sort_key f (x # xs)) = (x # xs) ! 0"
        using True ne h by (simp add: hd_insort_key)
      moreover have "\<forall>j<length (x # xs). f ((x # xs) ! 0) \<le> f ((x # xs) ! j)"
      proof (intro allI impI)
        fix j assume "j < length (x # xs)"
        then show "f ((x # xs) ! 0) \<le> f ((x # xs) ! j)"
          using True mn by (cases j) (auto intro: order_trans)
      qed
      ultimately show ?thesis by (intro exI [of _ 0]) simp
    next
      case nle: False
      have "hd (sort_key f (x # xs)) = (x # xs) ! Suc i"
        using nle ne h by (simp add: hd_insort_key)
      moreover have "\<forall>j<length (x # xs). f ((x # xs) ! Suc i) \<le> f ((x # xs) ! j)"
      proof (intro allI impI)
        fix j assume "j < length (x # xs)"
        then show "f ((x # xs) ! Suc i) \<le> f ((x # xs) ! j)"
          using nle mn by (cases j) auto
      qed
      moreover have "\<forall>j<Suc i. f ((x # xs) ! Suc i) < f ((x # xs) ! j)"
      proof (intro allI impI)
        fix j assume "j < Suc i"
        then show "f ((x # xs) ! Suc i) < f ((x # xs) ! j)"
          using nle fst by (cases j) auto
      qed
      ultimately show ?thesis using i by (intro exI [of _ "Suc i"]) simp
    qed
  qed
qed

lemma category_code_card: "category_code ks k = card {c \<in> set ks. c < k}"
proof -
  have "category_code ks k = card ({c. c < k} \<inter> set (remdups ks))"
    unfolding category_code_def by (rule distinct_length_filter) simp
  also have "{c. c < k} \<inter> set (remdups ks) = {c \<in> set ks. c < k}" by auto
  finally show ?thesis .
qed

lemma category_code_less: "a \<in> set ks \<Longrightarrow> a < b \<Longrightarrow> category_code ks a < category_code ks b"
  unfolding category_code_card
  by (rule psubset_card_mono) auto

lemma category_code_bound: "a \<in> set ks \<Longrightarrow> category_code ks a < length (remdups ks)"
  unfolding category_code_card length_remdups_card_conv
  by (rule psubset_card_mono) auto

lemma reversed_codes_nth:
  "i < length ks \<Longrightarrow> reversed_codes ks ! i = length (remdups ks) - category_code ks (ks ! i) - 1"
  by (simp add: reversed_codes_def codes_def category_code_def)

lemma length_reversed_codes: "length (reversed_codes ks) = length ks"
  by (simp add: reversed_codes_def codes_def)

lemma reversed_codes_less:
  assumes "i < length ks" "j < length ks"
  shows "reversed_codes ks ! i < reversed_codes ks ! j \<longleftrightarrow> ks ! j < ks ! i"
proof -
  have bi: "category_code ks (ks ! i) < length (remdups ks)" and bj: "category_code ks (ks ! j) < length (remdups ks)"
    using assms by (simp_all add: category_code_bound)
  have "category_code ks (ks ! j) < category_code ks (ks ! i) \<longleftrightarrow> ks ! j < ks ! i"
  proof
    assume r: "category_code ks (ks ! j) < category_code ks (ks ! i)"
    show "ks ! j < ks ! i"
    proof (rule ccontr)
      assume "\<not> ks ! j < ks ! i"
      then consider "ks ! i < ks ! j" | "ks ! i = ks ! j" by fastforce
      then show False
      proof cases
        case 1
        from category_code_less [OF _ this, of ks] assms r show False by simp
      next
        case 2
        with r show False by simp
      qed
    qed
  next
    assume "ks ! j < ks ! i"
    from category_code_less [OF _ this, of ks] assms show "category_code ks (ks ! j) < category_code ks (ks ! i)" by simp
  qed
  then show ?thesis
    using bi bj assms by (simp add: reversed_codes_nth) arith
qed

lemma reversed_codes_eq:
  assumes "i < length ks" "j < length ks"
  shows "reversed_codes ks ! i = reversed_codes ks ! j \<longleftrightarrow> ks ! i = ks ! j"
proof
  assume e: "reversed_codes ks ! i = reversed_codes ks ! j"
  have "\<not> ks ! j < ks ! i" using reversed_codes_less [OF assms] e by simp
  moreover have "\<not> ks ! i < ks ! j" using reversed_codes_less [OF assms(2) assms(1)] e by simp
  ultimately show "ks ! i = ks ! j" by (rule_tac antisym) simp_all
next
  assume "ks ! i = ks ! j"
  then show "reversed_codes ks ! i = reversed_codes ks ! j"
    using assms by (simp add: reversed_codes_nth)
qed

lemma reversed_codes_le:
  assumes "i < length ks" "j < length ks"
  shows "reversed_codes ks ! i \<le> reversed_codes ks ! j \<longleftrightarrow> ks ! j \<le> ks ! i"
  using reversed_codes_less [OF assms(2) assms(1)] by (simp add: not_less [symmetric])

lemma length_lexsort_indexer: "length (lexsort_indexer k1 k2) = collen k1"
  by (simp add: lexsort_indexer_def)

lemma lexsort_indexer_hd:
  assumes lp: "length ps = n" and lc: "length cs = n" and pos: "0 < n"
  shows "\<exists>i<n. hd (lexsort_indexer (IntCol ps) (IntCol cs)) = i
      \<and> (\<forall>j<n. ps ! j < ps ! i \<or> (ps ! j = ps ! i \<and> cs ! j \<le> cs ! i))
      \<and> (\<forall>j<i. ps ! j < ps ! i \<or> (ps ! j = ps ! i \<and> cs ! j < cs ! i))"
proof -
  let ?key = "\<lambda>i. (reversed_codes ps ! i, reversed_codes cs ! i)"
  have ne: "[0..<n] \<noteq> []" using pos by simp
  from hd_sort_key_first_min [OF ne, of ?key]
  obtain i where i: "i < n"
    and h: "hd (sort_key ?key [0..<n]) = [0..<n] ! i"
    and mn: "\<forall>j<n. ?key ([0..<n] ! i) \<le> ?key ([0..<n] ! j)"
    and fs: "\<forall>j<i. ?key ([0..<n] ! i) < ?key ([0..<n] ! j)"
    by auto
  have h': "hd (lexsort_indexer (IntCol ps) (IntCol cs)) = i"
    using h i lp by (simp add: lexsort_indexer_def)
  have a: "ps ! j < ps ! i \<or> (ps ! j = ps ! i \<and> cs ! j \<le> cs ! i)" if j: "j < n" for j
  proof -
    from mn j i have "?key i \<le> ?key j" by simp
    then have "reversed_codes ps ! i < reversed_codes ps ! j
        \<or> (reversed_codes ps ! i \<le> reversed_codes ps ! j \<and> reversed_codes cs ! i \<le> reversed_codes cs ! j)"
      by simp
    then have "ps ! j < ps ! i \<or> (ps ! j \<le> ps ! i \<and> cs ! j \<le> cs ! i)"
      using i j lp lc by (simp add: reversed_codes_less reversed_codes_le)
    then show ?thesis by linarith
  qed
  have b: "ps ! j < ps ! i \<or> (ps ! j = ps ! i \<and> cs ! j < cs ! i)" if j: "j < i" for j
  proof -
    from j i have jn: "j < n" by simp
    from fs j jn i have "?key i < ?key j" by simp
    then have "reversed_codes ps ! i < reversed_codes ps ! j
        \<or> (reversed_codes ps ! i \<le> reversed_codes ps ! j \<and> reversed_codes cs ! i < reversed_codes cs ! j)"
      by simp
    then have "ps ! j < ps ! i \<or> (ps ! j \<le> ps ! i \<and> cs ! j < cs ! i)"
      using i jn lp lc by (simp add: reversed_codes_less reversed_codes_le)
    then show ?thesis by linarith
  qed
  from i h' a b show ?thesis by blast
qed

lemma wf_collen: "wf_df df \<Longrightarrow> (k, c) \<in> set df \<Longrightarrow> collen c = nrows df"
  by (auto simp: wf_df_def list_all_iff)

lemma collen_take_col: "collen (take_col ix c) = length ix"
  by (cases c) simp_all

lemma nrows_take_rows: "df \<noteq> [] \<Longrightarrow> nrows (take_rows ix df) = length ix"
  by (cases df) (auto simp: nrows_def take_rows_def collen_take_col)

lemma cell_at_take_col: "ix \<noteq> [] \<Longrightarrow> cell_at (take_col ix c) 0 = cell_at c (hd ix)"
  by (cases c) (simp_all add: hd_conv_nth)

lemma filter_label_map:
  "filter (\<lambda>p. fst p = k) (map (\<lambda>p. (fst p, g (snd p))) df)
     = map (\<lambda>p. (fst p, g (snd p))) (filter (\<lambda>p. fst p = k) df)"
  by (induction df) simp_all

lemma select_first:
  assumes dist: "distinct (columns df)" and nm: "map_of df ''name'' = Some nc"
    and ix: "ix \<noteq> []"
  shows "(case iloc0 (take_rows ix df) of Inl e \<Rightarrow> Inl e | Inr row \<Rightarrow> getitem row ''name'')
      = Inr (Scalar (cell_at nc (hd ix)))"
proof -
  from nm have mem: "(''name'', nc) \<in> set df" by (rule map_of_SomeD)
  then have ne: "df \<noteq> []" by auto
  have n: "nrows (take_rows ix df) \<noteq> 0"
    using nrows_take_rows [OF ne, of ix] ix by simp
  let ?g = "\<lambda>c. cell_at (take_col ix c) 0"
  have row: "iloc0 (take_rows ix df) = Inr (map (\<lambda>p. (fst p, ?g (snd p))) df)"
    using n by (simp add: iloc0_def take_rows_def case_prod_unfold comp_def)
  from dist mem have "filter (\<lambda>p. fst p = ''name'') df = [(''name'', nc)]"
    unfolding columns_def by (rule filter_label_unique)
  then have "filter (\<lambda>p. fst p = ''name'') (map (\<lambda>p. (fst p, ?g (snd p))) df)
      = [(''name'', ?g nc)]"
    by (subst filter_label_map) simp
  then have "getitem (map (\<lambda>p. (fst p, ?g (snd p))) df) ''name'' = Inr (Scalar (?g nc))"
    by (simp add: getitem_def case_prod_unfold)
  with row show ?thesis by (simp add: cell_at_take_col [OF ix])
qed

lemma get_label_values_mem:
  assumes "get_label_values k df = Inr c"
  shows "(k, c) \<in> set df"
proof -
  from assms obtain h where "filter (\<lambda>p. fst p = k) df = [(h, c)]"
    by (auto simp: get_label_values_def case_prod_unfold split: list.splits)
  then have "(h, c) \<in> set (filter (\<lambda>p. fst p = k) df)" by simp
  then show ?thesis by auto
qed

lemma find_highest_protein_cereal_hd:
  assumes wf: "wf_df df" and dist: "distinct (columns df)" and pos: "0 < nrows df"
    and nm: "map_of df ''name'' = Some nc"
    and pr: "map_of df ''protein'' = Some kp"
    and ca: "map_of df ''calories'' = Some kc"
  shows "find_highest_protein_cereal df = Inr (Scalar (cell_at nc (hd (lexsort_indexer kp kc))))"
proof -
  let ?ix = "lexsort_indexer kp kc"
  have srt: "sort_values_protein_calories df = Inr (take_rows ?ix df)"
    by (simp add: sort_values_protein_calories_def
        get_label_values_unique [OF dist pr] get_label_values_unique [OF dist ca])
  have "length ?ix = nrows df"
    using wf_collen [OF wf map_of_SomeD [OF pr]] by (simp add: length_lexsort_indexer)
  with pos have ne: "?ix \<noteq> []" by auto
  show ?thesis
    unfolding find_highest_protein_cereal_def srt sum.case
    by (rule select_first [OF dist nm ne])
qed

text \<open>
  Claim C1. On a frame with at least one row, distinct labels, a \<open>name\<close> column and integer
  \<open>protein\<close> and \<open>calories\<close> columns, the selector returns the \<open>name\<close> cell of a row
  \<open>i\<close> such that no row has more protein, no row with as much protein has more calories,
  and every earlier row has less protein or as much protein and fewer calories: the first
  of the rows that are maximal in protein and then in calories.
\<close>

theorem find_highest_protein_cereal_first_max:
  assumes wf: "wf_df df" and dist: "distinct (columns df)" and pos: "0 < nrows df"
    and nm: "map_of df ''name'' = Some nc"
    and pr: "map_of df ''protein'' = Some (IntCol ps)"
    and ca: "map_of df ''calories'' = Some (IntCol cs)"
  shows "\<exists>i<nrows df. find_highest_protein_cereal df = Inr (Scalar (cell_at nc i))
      \<and> (\<forall>j<nrows df. ps ! j < ps ! i \<or> (ps ! j = ps ! i \<and> cs ! j \<le> cs ! i))
      \<and> (\<forall>j<i. ps ! j < ps ! i \<or> (ps ! j = ps ! i \<and> cs ! j < cs ! i))"
proof -
  have lp: "length ps = nrows df"
    using wf_collen [OF wf map_of_SomeD [OF pr]] by simp
  have lc: "length cs = nrows df"
    using wf_collen [OF wf map_of_SomeD [OF ca]] by simp
  note res = find_highest_protein_cereal_hd [OF wf dist pos nm pr ca]
  from lexsort_indexer_hd [OF lp lc pos] obtain i where "i < nrows df"
    and "hd (lexsort_indexer (IntCol ps) (IntCol cs)) = i"
    and "\<forall>j<nrows df. ps ! j < ps ! i \<or> (ps ! j = ps ! i \<and> cs ! j \<le> cs ! i)"
    and "\<forall>j<i. ps ! j < ps ! i \<or> (ps ! j = ps ! i \<and> cs ! j < cs ! i)"
    by blast
  with res show ?thesis by blast
qed

theorem find_highest_protein_cereal_first_max_witness:
  "\<exists>i<3. find_highest_protein_cereal test_df
        = Inr (Scalar (cell_at (StrCol [''Bran'', ''Bran - no added sugars'', ''Honey-comb'']) i))
      \<and> (\<forall>j<3. [4, 4, 1] ! j < [4, 4, 1 :: int] ! i
            \<or> ([4, 4, 1] ! j = [4, 4, 1 :: int] ! i \<and> [70, 50, 110] ! j \<le> [70, 50, 110 :: int] ! i))
      \<and> (\<forall>j<i. [4, 4, 1] ! j < [4, 4, 1 :: int] ! i
            \<or> ([4, 4, 1] ! j = [4, 4, 1 :: int] ! i \<and> [70, 50, 110] ! j < [70, 50, 110 :: int] ! i))"
proof -
  have wf: "wf_df test_df" by code_simp
  have dist: "distinct (columns test_df)" by code_simp
  have n: "nrows test_df = 3" by code_simp
  then have pos: "0 < nrows test_df" by simp
  have nm: "map_of test_df ''name''
      = Some (StrCol [''Bran'', ''Bran - no added sugars'', ''Honey-comb''])" by code_simp
  have pr: "map_of test_df ''protein'' = Some (IntCol [4, 4, 1])" by code_simp
  have ca: "map_of test_df ''calories'' = Some (IntCol [70, 50, 110])" by code_simp
  from find_highest_protein_cereal_first_max [OF wf dist pos nm pr ca]
  show ?thesis unfolding n .
qed

text \<open>
  Claim C2. On the frame of \<open>test_find_highest_protein_cereal\<close> the selector of
  \<open>v3_pipeline.py\<close> returns \<open>Bran\<close> (protein 4, calories 70), not
  \<open>Bran - no added sugars\<close> (protein 4, calories 50) as the test asserts.
\<close>

theorem find_highest_protein_cereal_test_frame:
  "find_highest_protein_cereal test_df = Inr (Scalar (StrVal ''Bran''))
   \<and> find_highest_protein_cereal test_df \<noteq> Inr (Scalar (StrVal ''Bran - no added sugars''))"
  by code_simp

text \<open>
  Claim C4. On a frame without rows the selector raises: \<open>sort_values\<close> raises when a
  key label is missing or repeated, and otherwise \<open>iloc[0]\<close> raises \<open>IndexError\<close> on the
  sorted frame, which has no row either.
\<close>

theorem find_highest_protein_cereal_empty:
  assumes wf: "wf_df df" and empty: "nrows df = 0"
  shows "(\<exists>e. find_highest_protein_cereal df = Inl e)
    \<and> (distinct (columns df) \<and> ''protein'' \<in> set (columns df) \<and> ''calories'' \<in> set (columns df)
        \<longrightarrow> find_highest_protein_cereal df = Inl IndexError)"
proof -
  have key: "find_highest_protein_cereal df = Inl IndexError"
    if p: "get_label_values ''protein'' df = Inr kp"
      and c: "get_label_values ''calories'' df = Inr kc" for kp kc
  proof -
    from get_label_values_mem [OF p] have mem: "(''protein'', kp) \<in> set df" .
    then have ne: "df \<noteq> []" by auto
    from wf_collen [OF wf mem] empty have "collen kp = 0" by simp
    then have "lexsort_indexer kp kc = []"
      using length_lexsort_indexer [of kp kc] by simp
    then have "nrows (take_rows (lexsort_indexer kp kc) df) = 0"
      using nrows_take_rows [OF ne, of "[]"] by simp
    then show ?thesis
      by (simp add: find_highest_protein_cereal_def sort_values_protein_calories_def p c iloc0_def)
  qed
  have 1: "\<exists>e. find_highest_protein_cereal df = Inl e"
  proof (cases "get_label_values ''protein'' df")
    case (Inl e)
    then show ?thesis
      by (simp add: find_highest_protein_cereal_def sort_values_protein_calories_def)
  next
    case p: (Inr kp)
    show ?thesis
    proof (cases "get_label_values ''calories'' df")
      case (Inl e)
      with p show ?thesis
        by (simp add: find_highest_protein_cereal_def sort_values_protein_calories_def)
    next
      case (Inr kc)
      from key [OF p this] show ?thesis by blast
    qed
  qed
  have 2: "find_highest_protein_cereal df = Inl IndexError"
    if d: "distinct (columns df)" and p: "''protein'' \<in> set (columns df)"
      and c: "''calories'' \<in> set (columns df)"
  proof -
    from p obtain kp where "map_of df ''protein'' = Some kp"
      unfolding columns_def by (metis map_of_eq_None_iff not_Some_eq set_map)
    from get_label_values_unique [OF d this] have p': "get_label_values ''protein'' df = Inr kp" .
    from c obtain kc where "map_of df ''calories'' = Some kc"
      unfolding columns_def by (metis map_of_eq_None_iff not_Some_eq set_map)
    from get_label_values_unique [OF d this] have "get_label_values ''calories'' df = Inr kc" .
    from key [OF p' this] show ?thesis .
  qed
  from 1 2 show ?thesis by blast
qed

theorem find_highest_protein_cereal_empty_witness:
  "wf_df ex_empty \<and> nrows ex_empty = 0 \<and> find_highest_protein_cereal ex_empty = Inl IndexError"
proof -
  have wf: "wf_df ex_empty" by code_simp
  have e: "nrows ex_empty = 0" by code_simp
  have d: "distinct (columns ex_empty)" by code_simp
  have p: "''protein'' \<in> set (columns ex_empty)" by code_simp
  have c: "''calories'' \<in> set (columns ex_empty)" by code_simp
  from find_highest_protein_cereal_empty [OF wf e] d p c wf e show ?thesis by blast
qed

section \<open>The two selectors, and the renamed and uppercased frames of the tests\<close>

lemma length_desc_codes: "length (desc_codes k) = collen k"
  by (cases k) (simp_all add: length_reversed_codes)

lemma desc_codes_le:
  "i < collen k \<Longrightarrow> j < collen k \<Longrightarrow> desc_codes k ! i \<le> desc_codes k ! j \<Longrightarrow> col_ge k i j"
  by (cases k) (simp_all add: reversed_codes_le)

lemma stable_nargsort_desc: "desc_indexer stable_nargsort"
  unfolding desc_indexer_def
proof (intro allI conjI)
  fix k
  let ?f = "\<lambda>i. desc_codes k ! i"
  show "mset (stable_nargsort k) = mset [0..<collen k]"
    by (simp add: stable_nargsort_def)
  have "sorted (map ?f (sort_key ?f [0..<collen k]))"
    by (rule sorted_sort_key)
  then have s: "sorted_wrt (\<lambda>a b. ?f a \<le> ?f b) (stable_nargsort k)"
    by (simp add: stable_nargsort_def sorted_map)
  have "set (stable_nargsort k) = {0..<collen k}"
    by (simp add: stable_nargsort_def)
  then have "\<And>a b. a \<in> set (stable_nargsort k) \<Longrightarrow> b \<in> set (stable_nargsort k)
      \<Longrightarrow> ?f a \<le> ?f b \<Longrightarrow> col_ge k a b"
    by (simp add: desc_codes_le)
  from sorted_wrt_mono_rel [OF this s] show "sorted_wrt (col_ge k) (stable_nargsort k)" .
qed

lemma desc_indexer_hd:
  assumes srt: "desc_indexer nargsort" and i: "i < length ps"
    and uniq: "\<forall>j<length ps. j \<noteq> i \<longrightarrow> ps ! j < ps ! i"
  shows "nargsort (IntCol ps) \<noteq> [] \<and> hd (nargsort (IntCol ps)) = i"
proof -
  let ?ix = "nargsort (IntCol ps)"
  from srt have m: "mset ?ix = mset [0..<length ps]"
    and s: "sorted_wrt (col_ge (IntCol ps)) ?ix"
    by (simp_all add: desc_indexer_def)
  from m have st: "set ?ix = {0..<length ps}"
    by (metis mset_eq_setD set_upt)
  with i have ne: "?ix \<noteq> []" by auto
  then obtain h t where ht: "?ix = h # t" by (cases ?ix) auto
  have hin: "h < length ps" using st ht by auto
  have "h = i"
  proof (rule ccontr)
    assume neq: "h \<noteq> i"
    with uniq hin have lt: "ps ! h < ps ! i" by simp
    from st i ht neq have "i \<in> set t" by auto
    with s ht have "col_ge (IntCol ps) h i" by simp
    with lt show False by simp
  qed
  with ne ht show ?thesis by simp
qed

lemma find_highest_protein_cereal_v0_hd:
  assumes dist: "distinct (columns df)"
    and nm: "map_of df ''name'' = Some nc"
    and pr: "map_of df ''protein'' = Some kp"
    and ne: "nargsort kp \<noteq> []"
  shows "find_highest_protein_cereal_v0 nargsort df = Inr (Scalar (cell_at nc (hd (nargsort kp))))"
  unfolding find_highest_protein_cereal_v0_def get_label_values_unique [OF dist pr] sum.case
  by (rule select_first [OF dist nm ne])

text \<open>
  Claim C10. On a frame with distinct labels, a \<open>name\<close> column and integer \<open>protein\<close> and
  \<open>calories\<close> columns, in which row \<open>i\<close> has strictly more protein than every other row,
  the selector of \<open>v0_pipeline.py\<close> (with any sort that orders the rows by protein,
  descending) and the selector of \<open>v3_pipeline.py\<close> both return the \<open>name\<close> cell of row
  \<open>i\<close>, hence the same name.
\<close>

theorem v0_v3_agree_on_unique_max:
  assumes srt: "desc_indexer nargsort"
    and wf: "wf_df df" and dist: "distinct (columns df)"
    and nm: "map_of df ''name'' = Some nc"
    and pr: "map_of df ''protein'' = Some (IntCol ps)"
    and ca: "map_of df ''calories'' = Some (IntCol cs)"
    and i: "i < nrows df"
    and uniq: "\<forall>j<nrows df. j \<noteq> i \<longrightarrow> ps ! j < ps ! i"
  shows "find_highest_protein_cereal_v0 nargsort df = find_highest_protein_cereal df
    \<and> find_highest_protein_cereal df = Inr (Scalar (cell_at nc i))"
proof -
  have lp: "length ps = nrows df"
    using wf_collen [OF wf map_of_SomeD [OF pr]] by simp
  have lc: "length cs = nrows df"
    using wf_collen [OF wf map_of_SomeD [OF ca]] by simp
  from i have pos: "0 < nrows df" by simp
  from desc_indexer_hd [OF srt, of i ps] i uniq lp
  have ne: "nargsort (IntCol ps) \<noteq> []" and h0: "hd (nargsort (IntCol ps)) = i" by simp_all
  have v0: "find_highest_protein_cereal_v0 nargsort df = Inr (Scalar (cell_at nc i))"
    using find_highest_protein_cereal_v0_hd [of df nc "IntCol ps" nargsort, OF dist nm pr ne] h0
    by simp
  from lexsort_indexer_hd [OF lp lc pos] obtain i' where i': "i' < nrows df"
    and h3: "hd (lexsort_indexer (IntCol ps) (IntCol cs)) = i'"
    and mx: "\<forall>j<nrows df. ps ! j < ps ! i' \<or> (ps ! j = ps ! i' \<and> cs ! j \<le> cs ! i')"
    by blast
  have "i' = i"
  proof (rule ccontr)
    assume "i' \<noteq> i"
    with uniq i' have "ps ! i' < ps ! i" by simp
    moreover from mx i have "ps ! i < ps ! i' \<or> ps ! i = ps ! i'" by blast
    ultimately show False by linarith
  qed
  with find_highest_protein_cereal_hd [OF wf dist pos nm pr ca] h3
  have v3: "find_highest_protein_cereal df = Inr (Scalar (cell_at nc i))" by simp
  with v0 show ?thesis by simp
qed

theorem v0_v3_agree_on_unique_max_witness:
  "find_highest_protein_cereal_v0 stable_nargsort ex_normalized
     = find_highest_protein_cereal ex_normalized
   \<and> find_highest_protein_cereal ex_normalized = Inr (Scalar (StrVal ''Bran''))"
proof -
  have wf: "wf_df ex_normalized" by code_simp
  have dist: "distinct (columns ex_normalized)" by code_simp
  have nm: "map_of ex_normalized ''name'' = Some (StrCol [''Bran'', ''Honey-comb''])"
    by code_simp
  have pr: "map_of ex_normalized ''protein'' = Some (IntCol [4, 1])" by code_simp
  have ca: "map_of ex_normalized ''calories'' = Some (IntCol [70, 110])" by code_simp
  have n: "nrows ex_normalized = 2" by code_simp
  have i: "0 < nrows ex_normalized" by (simp add: n)
  have uniq: "\<forall>j<nrows ex_normalized. j \<noteq> 0 \<longrightarrow> [4, 1 :: int] ! j < [4, 1] ! 0"
    unfolding n by (simp add: less_Suc_eq numeral_2_eq_2)
  from v0_v3_agree_on_unique_max [OF stable_nargsort_desc wf dist nm pr ca i uniq]
  show ?thesis by simp
qed

lemma preprocess_cereals_cong:
  "str_lower_columns a = str_lower_columns b \<Longrightarrow> preprocess_cereals a = preprocess_cereals b"
  by (simp add: preprocess_cereals_def)

lemma str_lower_upper_columns:
  assumes "\<forall>h \<in> set (columns df). lower (upper h) = lower h"
  shows "str_lower_columns (str_upper_columns df) = str_lower_columns df"
proof -
  have "(lower (upper (fst p)), snd p) = (lower (fst p), snd p)" if "p \<in> set df" for p
    using assms that by (simp add: columns_def)
  then show ?thesis
    unfolding str_lower_columns_def str_upper_columns_def case_prod_unfold map_map comp_def
      fst_conv snd_conv
    by (intro map_cong [OF refl])
qed

text \<open>
  Claim C7, as stated, fails: Python's \<open>upper\<close> turns a dotless i into \<open>I\<close>, which
  lowercases to \<open>i\<close>. With the labels \<open>name\<close>, \<open>protein\<close> spelled with a dotless i, and
  \<open>calories\<close>, the pipeline raises \<open>KeyError\<close> (no column is labelled \<open>protein\<close>), and
  on the frame with uppercased labels it returns \<open>Bran\<close>.
\<close>

theorem uppercase_labels_counterexample:
  "best_preworkout_cereal_pipeline ex_dotless = Inl KeyError
   \<and> best_preworkout_cereal_pipeline (str_upper_columns ex_dotless)
       = Inr (Scalar (StrVal ''Bran''))
   \<and> best_preworkout_cereal_pipeline (str_upper_columns ex_dotless)
       \<noteq> best_preworkout_cereal_pipeline ex_dotless"
  by code_simp

text \<open>
  Claim C7, amended. When lowercasing the uppercased label gives the lowercased label, for
  every label of the frame (labels of ASCII characters are such labels, lemma
  \<open>lower_upper_ascii\<close>), uppercasing every label before the pipeline does not change its
  outcome, value or error: the normalizer sees the same lowercased labels.
\<close>

theorem uppercase_labels_same_result:
  assumes "\<forall>h \<in> set (columns df). lower (upper h) = lower h"
  shows "best_preworkout_cereal_pipeline (str_upper_columns df)
       = best_preworkout_cereal_pipeline df
    \<and> snd (preprocess_cereals (str_upper_columns df)) = snd (preprocess_cereals df)"
proof -
  have "preprocess_cereals (str_upper_columns df) = preprocess_cereals df"
    by (rule preprocess_cereals_cong) (rule str_lower_upper_columns [OF assms])
  then show ?thesis by (simp add: best_preworkout_cereal_pipeline_def)
qed

theorem uppercase_labels_same_result_witness:
  "columns (str_upper_columns test_df) = [''NAME'', ''PROTEIN'', ''CALORIES'']
   \<and> best_preworkout_cereal_pipeline (str_upper_columns test_df)
       = best_preworkout_cereal_pipeline test_df
   \<and> best_preworkout_cereal_pipeline test_df = Inr (Scalar (StrVal ''Bran''))"
proof -
  have h: "\<forall>h \<in> set (columns test_df). lower (upper h) = lower h" by code_simp
  have u: "columns (str_upper_columns test_df) = [''NAME'', ''PROTEIN'', ''CALORIES'']"
    by code_simp
  have r: "best_preworkout_cereal_pipeline test_df = Inr (Scalar (StrVal ''Bran''))"
    by code_simp
  from uppercase_labels_same_result [OF h] u r show ?thesis by blast
qed

lemma rename_name_to_brand_lowered:
  assumes nm: "''name'' \<in> set (columns df)"
    and only: "\<forall>h \<in> set (columns df). lower h = ''name'' \<longrightarrow> h = ''name''"
    and nb: "''brand'' \<notin> set (map lower (columns df))"
  shows "snd (preprocess_cereals (rename ''name'' ''brand'' df)) = Inr (str_lower_columns df)"
proof -
  let ?R = "rename ''name'' ''brand'' df"
  have neq: "''brand'' \<noteq> ''name''" by simp
  have n1: "''name'' \<notin> set (map lower (columns ?R))"
  proof
    assume "''name'' \<in> set (map lower (columns ?R))"
    then obtain h where h: "h \<in> set (columns df)"
      and l: "lower (if h = ''name'' then ''brand'' else h) = ''name''"
      unfolding columns_rename by auto
    show False
    proof (cases "h = ''name''")
      case True
      with l have "lower ''brand'' = ''name''" by simp
      with neq show False by (simp only: lower_brand)
    next
      case False
      with l have "lower h = ''name''" by simp
      with only h False show False by blast
    qed
  qed
  from nm have "''brand'' \<in> set (columns ?R)" by (rule name_after_rename)
  then have "lower ''brand'' \<in> set (map lower (columns ?R))" by (simp only: set_map) (rule imageI)
  then have b1: "''brand'' \<in> set (map lower (columns ?R))" by (simp only: lower_brand)
  have pt: "(if lower (if fst p = ''name'' then ''brand'' else fst p) = ''brand'' then ''name''
             else lower (if fst p = ''name'' then ''brand'' else fst p)) = lower (fst p)"
    if p: "p \<in> set df" for p
  proof (cases "fst p = ''name''")
    case True
    then show ?thesis by (simp add: lower_brand lower_name)
  next
    case False
    from p have "lower (fst p) \<in> set (map lower (columns df))"
      by (simp add: columns_def)
    with nb have "lower (fst p) \<noteq> ''brand''" by metis
    with False show ?thesis by (simp only: if_False)
  qed
  have "rename ''brand'' ''name'' (str_lower_columns ?R) = str_lower_columns df"
    unfolding rename_def str_lower_columns_def case_prod_unfold map_map comp_def fst_conv snd_conv
    by (rule map_cong [OF refl]) (simp only: pt)
  with preprocess_with_brand [OF n1 b1] show ?thesis by simp
qed

lemma preprocess_cereals_contents:
  "snd (preprocess_cereals df) = Inr df' \<Longrightarrow> map snd df' = map snd df"
  by (auto simp: preprocess_cereals_def Let_def data_rename data_str_lower split: if_splits)

lemma distinct_lowered_only_name:
  assumes d: "distinct (map lower (columns df))" and nm: "''name'' \<in> set (columns df)"
    and h: "h \<in> set (columns df)" and l: "lower h = ''name''"
  shows "h = ''name''"
proof -
  from d have "inj_on lower (set (columns df))" by (simp add: distinct_map)
  moreover have "lower h = lower ''name''" using l by (simp only: lower_name)
  ultimately show ?thesis using h nm by (rule inj_onD)
qed

lemma distinct_renamed_no_brand:
  assumes d: "distinct (map lower (columns (rename ''name'' ''brand'' df)))"
    and nm: "''name'' \<in> set (columns df)"
  shows "''brand'' \<notin> set (map lower (columns df))"
proof
  let ?g = "\<lambda>h. lower (if h = ''name'' then ''brand'' else h)"
  assume "''brand'' \<in> set (map lower (columns df))"
  then obtain h where h: "h \<in> set (columns df)" and l: "lower h = ''brand''" by auto
  have neq: "''brand'' \<noteq> ''name''" by simp
  from l neq have hn: "h \<noteq> ''name''" by (auto simp: lower_name)
  from d have "distinct (map ?g (columns df))"
    by (simp only: columns_rename map_map comp_def)
  then have inj: "inj_on ?g (set (columns df))" by (simp add: distinct_map)
  have e: "?g h = ?g ''name''" using hn l by (simp add: lower_brand)
  from inj e h nm have "h = ''name''" by (rule inj_onD)
  with hn show False by simp
qed

text \<open>
  Claim C6. For a frame with a \<open>name\<close> column, normalizing the frame with \<open>name\<close> renamed
  to \<open>brand\<close> and normalizing the frame itself both succeed and give the same column
  contents. When both frames are tables of the data model, their labels distinct after
  lowercasing (so that no second column of the frame is a \<open>name\<close> or a \<open>brand\<close> column
  in another spelling), the two results are the same frame, labels included.
\<close>

theorem rename_name_to_brand_same_result:
  assumes nm: "''name'' \<in> set (columns df)"
  shows "(\<exists>a b. snd (preprocess_cereals (rename ''name'' ''brand'' df)) = Inr a
            \<and> snd (preprocess_cereals df) = Inr b
            \<and> map snd a = map snd b)
    \<and> (distinct (map lower (columns df))
        \<and> distinct (map lower (columns (rename ''name'' ''brand'' df)))
        \<longrightarrow> snd (preprocess_cereals (rename ''name'' ''brand'' df))
              = snd (preprocess_cereals df)
            \<and> snd (preprocess_cereals df) = Inr (str_lower_columns df))"
proof -
  let ?R = "rename ''name'' ''brand'' df"
  from nm have "lower ''name'' \<in> set (map lower (columns df))" by (simp only: set_map) (rule imageI)
  then have n0: "''name'' \<in> set (map lower (columns df))" by (simp only: lower_name)
  have b: "snd (preprocess_cereals df) = Inr (str_lower_columns df)"
    by (simp add: preprocess_with_name [OF n0])
  from nm have "''brand'' \<in> set (columns ?R)" by (rule name_after_rename)
  then have "lower ''brand'' \<in> set (map lower (columns ?R))" by (simp only: set_map) (rule imageI)
  then have "''brand'' \<in> set (map lower (columns ?R))" by (simp only: lower_brand)
  then have "''name'' \<in> set (map lower (columns ?R)) \<or> ''brand'' \<in> set (map lower (columns ?R))"
    by blast
  with preprocess_cereals_raises_or_returns [of ?R]
  obtain a where a: "snd (preprocess_cereals ?R) = Inr a" by blast
  from preprocess_cereals_contents [OF a] have "map snd a = map snd df"
    by (simp only: data_rename)
  with a b have 1: "\<exists>a b. snd (preprocess_cereals ?R) = Inr a
      \<and> snd (preprocess_cereals df) = Inr b \<and> map snd a = map snd b"
    by (simp add: data_str_lower)
  have 2: "snd (preprocess_cereals ?R) = snd (preprocess_cereals df)"
    if d: "distinct (map lower (columns df))" and dr: "distinct (map lower (columns ?R))"
  proof -
    have only: "\<forall>h \<in> set (columns df). lower h = ''name'' \<longrightarrow> h = ''name''"
      using distinct_lowered_only_name [OF d nm] by blast
    from rename_name_to_brand_lowered [OF nm only distinct_renamed_no_brand [OF dr nm]] b
    show ?thesis by simp
  qed
  from 1 2 b show ?thesis by blast
qed

theorem rename_name_to_brand_same_result_witness:
  "snd (preprocess_cereals (rename ''name'' ''brand'' test_df)) = snd (preprocess_cereals test_df)
   \<and> snd (preprocess_cereals test_df) = Inr test_df"
proof -
  have nm: "''name'' \<in> set (columns test_df)" by code_simp
  have d: "distinct (map lower (columns test_df))" by code_simp
  have dr: "distinct (map lower (columns (rename ''name'' ''brand'' test_df)))" by code_simp
  have l: "str_lower_columns test_df = test_df" by code_simp
  from rename_name_to_brand_same_result [OF nm] d dr show ?thesis
    unfolding l by blast
qed

end
